theory Spec2Isabelle
  imports Main "HOL-Library.Multiset" "HOL-Library.Char_ord" "HOL-Library.List_Lexorder"
begin

section \<open>Python values and exceptions\<close>

text \<open>
  The exceptions that the modelled code paths can raise: numpy raises \<open>ValueError\<close> when
  \<open>kth\<close> is out of bounds for \<open>argpartition\<close> and when \<open>min\<close> is taken of an empty
  array, pandas raises it when an axis is relabelled with a list of another length;
  comparing an integer label with a string label raises \<open>TypeError\<close>; reading a list
  beyond its end raises \<open>IndexError\<close>.
\<close>

datatype py_error = ValueError | TypeError | IndexError

text \<open>
  The Python objects that reach \<open>obtain_numbers\<close>: the loader passes it strings (JSON
  keys); integers and \<open>None\<close> stand for the inputs that are not strings. Python integers
  are unbounded, and so are the stock counts: \<open>load_files\<close> builds the stock frame by
  transposing a frame of mixed columns, which gives an array of Python objects.
\<close>

datatype pyval = PyInt int | PyStr string | PyNone

section \<open>Label normalisation: \<open>obtain_numbers\<close> (lines 8-31)\<close>

definition numberdict :: "(string \<times> int) list" where
  "numberdict = [(''two'', 2), (''three'', 3), (''four'', 4)]"

text \<open>\<open>string.split("_")[0]\<close>: the characters before the first underscore, the whole
  string when it has none.\<close>

definition split_first :: "string \<Rightarrow> string" where
  "split_first string = takeWhile (\<lambda>c. c \<noteq> CHR ''_'') string"

fun obtain_numbers :: "pyval \<Rightarrow> pyval" where
  "obtain_numbers (PyStr string) =
     (let num = split_first string in
      case map_of numberdict num of
        Some n \<Rightarrow> PyInt n
      | None \<Rightarrow> PyStr string)"
| "obtain_numbers v = v"

section \<open>The allocation engine: \<open>allocate_recipes\<close> (lines 35-67)\<close>

text \<open>
  \<open>numpy.argpartition(a, kth)\<close> returns a permutation of the indices of \<open>a\<close> in which the
  index at position \<open>kth\<close> is where a full sort would put it, every index before it
  points to a value that is not larger and every index after it to a value that is
  not smaller. Which permutation it returns among those is left to numpy's selection
  routine, so the routine is a parameter of the model and \<open>argpartition_spec\<close> is its
  documented contract. \<open>argsort\<close> below, a full stable sort of the indices whatever
  \<open>kth\<close> is, is one routine that meets it; among equal values it need not pick the
  indices numpy picks, which is why the general statements are about every routine
  that meets the contract.
\<close>

type_synonym argpartition = "int list \<Rightarrow> nat \<Rightarrow> nat list"

definition argpartition_spec :: "argpartition \<Rightarrow> bool" where
  "argpartition_spec ap \<longleftrightarrow>
     (\<forall>a kth. kth < length a \<longrightarrow>
        mset (ap a kth) = mset [0..<length a] \<and>
        (\<forall>i<kth. a ! (ap a kth ! i) \<le> a ! (ap a kth ! kth)) \<and>
        (\<forall>i. kth < i \<and> i < length a \<longrightarrow> a ! (ap a kth ! kth) \<le> a ! (ap a kth ! i)))"

definition argsort :: argpartition where
  "argsort a kth = sort_key (\<lambda>i. a ! i) [0..<length a]"

text \<open>numpy's bounds check on \<open>kth\<close>: a negative \<open>kth\<close> counts from the end, and a
  \<open>kth\<close> outside \<open>[-n, n)\<close> raises \<open>ValueError\<close>. The check is skipped for an array with no
  entries, whose index array is empty.\<close>

definition np_argpartition :: "argpartition \<Rightarrow> int list \<Rightarrow> int \<Rightarrow> py_error + nat list" where
  "np_argpartition ap a kth =
     (let n = int (length a);
          k = (if kth < 0 then kth + n else kth)
      in if a = [] then Inr []
         else if k < 0 \<or> n \<le> k then Inl ValueError
         else Inr (ap a (nat k)))"

text \<open>The Python slice \<open>xs[start:]\<close>.\<close>

definition slice_from :: "'a list \<Rightarrow> int \<Rightarrow> 'a list" where
  "slice_from xs start =
     (let n = int (length xs);
          s = (if start < 0 then max (start + n) 0 else min start n)
      in drop (nat s) xs)"

text \<open>Fancy indexing \<open>a[idx]\<close> and the assignment \<open>a[idx] = a[idx] - p\<close>.\<close>

definition take_at :: "int list \<Rightarrow> nat list \<Rightarrow> int list" where
  "take_at a idx = map (\<lambda>i. a ! i) idx"

definition subtract_at :: "int list \<Rightarrow> nat list \<Rightarrow> int \<Rightarrow> int list" where
  "subtract_at a idx p = map (\<lambda>i. if i \<in> set idx then a ! i - p else a ! i) [0..<length a]"

text \<open>The expression \<open>np.argpartition(stock_levels, -N_recipes)[-N_recipes:]\<close>.\<close>

definition recipe_choices :: "argpartition \<Rightarrow> int list \<Rightarrow> int \<Rightarrow> py_error + nat list" where
  "recipe_choices ap stock_levels N_recipes =
     (case np_argpartition ap stock_levels (- N_recipes) of
        Inl e \<Rightarrow> Inl e
      | Inr idx \<Rightarrow> Inr (slice_from idx (- N_recipes)))"

text \<open>
  The loop \<open>for N_orders_left in range(N_orders, 0, -1)\<close> of \<open>allocate_recipes\<close>. The
  array is mutated in place in the source; here the updated array is passed on. An
  exception leaves the loop with no result. \<open>min\<close> of an empty selection raises
  \<open>ValueError\<close>.
\<close>

function allocate_loop ::
  "argpartition \<Rightarrow> int \<Rightarrow> int list \<Rightarrow> int \<Rightarrow> int \<Rightarrow> py_error + (int list \<times> int)" where
  "allocate_loop ap N_orders_left stock_levels N_portions N_recipes =
     (if N_orders_left \<le> 0 then Inr (stock_levels, 0)
      else case recipe_choices ap stock_levels N_recipes of
        Inl e \<Rightarrow> Inl e
      | Inr choices \<Rightarrow>
          if choices = [] then Inl ValueError
          else if Min (set (take_at stock_levels choices)) < N_portions
          then Inr (stock_levels, N_orders_left)
          else allocate_loop ap (N_orders_left - 1)
                 (subtract_at stock_levels choices N_portions) N_portions N_recipes)"
  by pat_completeness auto
termination
  by (relation "measure (\<lambda>(ap, n, s, p, r). nat n)") auto

definition allocate_recipes ::
  "argpartition \<Rightarrow> int \<Rightarrow> int list \<Rightarrow> int \<Rightarrow> int \<Rightarrow> py_error + (int list \<times> int)" where
  "allocate_recipes ap N_orders stock_levels N_portions N_recipes =
     (if int (length stock_levels) < N_recipes then Inr (stock_levels, N_orders)
      else allocate_loop ap N_orders stock_levels N_portions N_recipes)"

section \<open>The fulfilment cascade: \<open>fulfil_orders\<close> (lines 69-128)\<close>

text \<open>A row of \<open>StockDF\<close>: the columns \<open>stock_count\<close> and \<open>box_type\<close>.\<close>

record stock_row =
  stock_count :: int
  box_type :: string

text \<open>
  \<open>OrdersDF\<close> is a three-dimensional numpy array: its shape and the entry at \<open>[i, j, k]\<close>.
  Only entries inside the shape are ever read.
\<close>

record ndarray3 =
  shape0 :: nat
  shape1 :: nat
  shape2 :: nat
  item :: "nat \<Rightarrow> nat \<Rightarrow> nat \<Rightarrow> int"

text \<open>\<open>Ordersdict\<close>: the label lists stored under the keys 0, 1 and 2.\<close>

record 'l ordersdict =
  axis0 :: "string list"
  axis1 :: "'l list"
  axis2 :: "'l list"

text \<open>
  Boolean-mask indexing \<open>stocks[mask]\<close>, which copies, and the assignment
  \<open>stocks[mask] = values\<close>. In \<open>fulfil_orders\<close> the masks are as long as \<open>stocks\<close> and the
  values are the array \<open>allocate_recipes\<close> returned for \<open>stocks[mask]\<close>, which has the
  length of what it was given (\<open>length_allocate_recipes\<close>), so the values number the
  selected entries; numpy would raise otherwise.
\<close>

fun mask_get :: "int list \<Rightarrow> bool list \<Rightarrow> int list" where
  "mask_get (x # xs) (b # bs) = (if b then x # mask_get xs bs else mask_get xs bs)"
| "mask_get _ _ = []"

fun mask_set :: "int list \<Rightarrow> bool list \<Rightarrow> int list \<Rightarrow> int list" where
  "mask_set (x # xs) (True # bs) (v # vs) = v # mask_set xs bs vs"
| "mask_set (x # xs) (b # bs) vs = x # mask_set xs bs vs"
| "mask_set xs _ _ = xs"

text \<open>
  The history of a run, kept beside the stock array so that the order of the calls can
  be stated: every call of \<open>allocate_recipes\<close> with the pool it was given and its
  arguments.
\<close>

datatype pool = VegetarianOnly | GourmetOnly | Combined

record call =
  call_pool :: pool
  call_orders :: int
  call_stock :: "int list"
  call_portions :: int
  call_recipes :: int

record run_state =
  stocks :: "int list"
  calls :: "call list"

datatype outcome = Returned bool | Raised py_error

datatype step = Continue run_state | Stop outcome run_state

definition lookup :: "'a list \<Rightarrow> nat \<Rightarrow> 'a option" where
  "lookup xs i = (if i < length xs then Some (xs ! i) else None)"

definition record_call :: "run_state \<Rightarrow> pool \<Rightarrow> int \<Rightarrow> int list \<Rightarrow> int \<Rightarrow> int \<Rightarrow> run_state" where
  "record_call st pl n given p r =
     st\<lparr>calls := calls st @
       [\<lparr>call_pool = pl, call_orders = n, call_stock = given,
         call_portions = p, call_recipes = r\<rparr>]\<rparr>"

text \<open>
  The body of the innermost loop for the cell \<open>[i, j, k]\<close>. As in the source, the label
  \<open>Ordersdict[2][k]\<close> is passed as \<open>N_portions\<close> and \<open>Ordersdict[1][j]\<close> as \<open>N_recipes\<close>.
  The failed gourmet-only attempt works on the copy \<open>stocks[gourmet_stocks]\<close>; the
  fallback call is given \<open>stocks\<close> itself and mutates it in place, so what it returns is
  the array \<open>stocks\<close> whether or not it met all orders. A call that raises has raised for
  its first order, before any subtraction (\<open>allocate_loop_raises_at_once\<close>), and
  leaves \<open>stocks\<close> as it was.
\<close>

definition visit_cell ::
  "argpartition \<Rightarrow> bool list \<Rightarrow> bool list \<Rightarrow> ndarray3 \<Rightarrow> int ordersdict \<Rightarrow>
   nat \<times> nat \<times> nat \<Rightarrow> run_state \<Rightarrow> step" where
  "visit_cell ap veg_stocks gourmet_stocks OrdersDF Ordersdict jik st =
     (case jik of (j, i, k) \<Rightarrow>
      (case (lookup (axis0 Ordersdict) i, lookup (axis1 Ordersdict) j, lookup (axis2 Ordersdict) k) of
        (Some category, Some label1, Some label2) \<Rightarrow>
          if category = ''vegetarian'' then
            (let given = mask_get (stocks st) veg_stocks;
                 st1 = record_call st VegetarianOnly (item OrdersDF i j k) given label2 label1
             in case allocate_recipes ap (item OrdersDF i j k) given label2 label1 of
                  Inl e \<Rightarrow> Stop (Raised e) st1
                | Inr (stocks_left, orders_left) \<Rightarrow>
                    if orders_left > 0 then Stop (Returned False) st1
                    else Continue (st1\<lparr>stocks := mask_set (stocks st) veg_stocks stocks_left\<rparr>))
          else if category = ''gourmet'' then
            (let given = mask_get (stocks st) gourmet_stocks;
                 st1 = record_call st GourmetOnly (item OrdersDF i j k) given label2 label1
             in case allocate_recipes ap (item OrdersDF i j k) given label2 label1 of
                  Inl e \<Rightarrow> Stop (Raised e) st1
                | Inr (stocks_left, orders_left) \<Rightarrow>
                    if orders_left > 0 then
                      (let st2 = record_call st1 Combined orders_left (stocks st) label2 label1
                       in case allocate_recipes ap orders_left (stocks st) label2 label1 of
                            Inl e \<Rightarrow> Stop (Raised e) st2
                          | Inr (stocks_left2, orders_left2) \<Rightarrow>
                              if orders_left2 > 0
                              then Stop (Returned False) (st2\<lparr>stocks := stocks_left2\<rparr>)
                              else Continue (st2\<lparr>stocks := stocks_left2\<rparr>))
                    else Continue (st1\<lparr>stocks := mask_set (stocks st) gourmet_stocks stocks_left\<rparr>))
          else Continue st
      | _ \<Rightarrow> Stop (Raised IndexError) st))"

text \<open>The three nested \<open>for\<close> loops of lines 94-96: \<open>j\<close> over axis 1 outermost, then \<open>i\<close> over
  axis 0, then \<open>k\<close> over axis 2.\<close>

definition visit_order :: "ndarray3 \<Rightarrow> (nat \<times> nat \<times> nat) list" where
  "visit_order OrdersDF =
     concat (map (\<lambda>j.
       concat (map (\<lambda>i.
         map (\<lambda>k. (j, i, k)) [0..<shape2 OrdersDF])
       [0..<shape0 OrdersDF]))
     [0..<shape1 OrdersDF])"

fun run_cells ::
  "(nat \<times> nat \<times> nat \<Rightarrow> run_state \<Rightarrow> step) \<Rightarrow> (nat \<times> nat \<times> nat) list \<Rightarrow> run_state \<Rightarrow> step" where
  "run_cells body [] st = Continue st"
| "run_cells body (c # cs) st =
     (case body c st of
        Continue st' \<Rightarrow> run_cells body cs st'
      | Stop out st' \<Rightarrow> Stop out st')"

definition veg_mask :: "stock_row list \<Rightarrow> bool list" where
  "veg_mask StockDF = map (\<lambda>row. box_type row = ''vegetarian'') StockDF"

definition gourmet_mask :: "stock_row list \<Rightarrow> bool list" where
  "gourmet_mask StockDF = map (\<lambda>row. box_type row = ''gourmet'') StockDF"

definition initial_state :: "stock_row list \<Rightarrow> run_state" where
  "initial_state StockDF = \<lparr>stocks = map stock_count StockDF, calls = []\<rparr>"

definition cell_body ::
  "argpartition \<Rightarrow> stock_row list \<Rightarrow> ndarray3 \<Rightarrow> int ordersdict \<Rightarrow>
   nat \<times> nat \<times> nat \<Rightarrow> run_state \<Rightarrow> step" where
  "cell_body ap StockDF OrdersDF Ordersdict =
     visit_cell ap (veg_mask StockDF) (gourmet_mask StockDF) OrdersDF Ordersdict"

text \<open>
  \<open>fulfil_orders\<close> returns the boolean (or the exception raised) together with the
  final value of the local array \<open>stocks\<close> and the history of calls.
\<close>

fun finish :: "step \<Rightarrow> outcome \<times> run_state" where
  "finish (Continue st) = (Returned True, st)"
| "finish (Stop out st) = (out, st)"

definition fulfil_orders ::
  "argpartition \<Rightarrow> stock_row list \<Rightarrow> ndarray3 \<Rightarrow> int ordersdict \<Rightarrow> outcome \<times> run_state" where
  "fulfil_orders ap StockDF OrdersDF Ordersdict =
     finish (run_cells (cell_body ap StockDF OrdersDF Ordersdict)
               (visit_order OrdersDF) (initial_state StockDF))"

section \<open>The loader: \<open>load_files\<close> (lines 130-187)\<close>

text \<open>
  A parsed JSON object is an association list with distinct keys, in file order. The
  orders of one category map an outer key to an object that maps an inner key to a
  count.
\<close>

type_synonym json_table = "(string \<times> (string \<times> int) list) list"

record orders_json =
  vegetarian :: json_table
  gourmet :: json_table

text \<open>A pandas data frame of integers: row labels, column labels and the rows.\<close>

record frame =
  index :: "pyval list"
  columns :: "pyval list"
  rows :: "int list list"

text \<open>
  \<open>pd.DataFrame.from_dict\<close> of a dictionary of dictionaries (default orientation): the
  outer keys become the columns, the union of the inner keys, each at its first
  appearance, becomes the index and the entry in row \<open>r\<close>, column \<open>c\<close> is \<open>d[c][r]\<close>. Where some \<open>d[c]\<close> lacks a key, pandas
  stores NaN and the array becomes floating point; that case, and an association list
  that repeats a key (not a dictionary), is outside this model and gives \<open>None\<close>.
\<close>

definition first_appearance :: "'a list \<Rightarrow> 'a list" where
  "first_appearance xs = rev (remdups (rev xs))"

definition from_dict :: "json_table \<Rightarrow> frame option" where
  "from_dict d =
     (let idx = first_appearance (concat (map (\<lambda>(c, col). map fst col) d)) in
      if distinct (map fst d) \<and> list_all (\<lambda>(c, col). distinct (map fst col)) d then
        (case those (map (\<lambda>r. those (map (\<lambda>(c, col). map_of col r) d)) idx) of
           Some rs \<Rightarrow> Some \<lparr>index = map PyStr idx, columns = map (\<lambda>(c, col). PyStr c) d, rows = rs\<rparr>
         | None \<Rightarrow> None)
      else None)"

text \<open>Assigning a new label list to \<open>.columns\<close> or \<open>.index\<close>: pandas raises \<open>ValueError\<close>
  when the number of labels differs.\<close>

definition set_columns :: "frame \<Rightarrow> pyval list \<Rightarrow> py_error + frame" where
  "set_columns f names =
     (if length names = length (columns f) then Inr (f\<lparr>columns := names\<rparr>) else Inl ValueError)"

definition set_index :: "frame \<Rightarrow> pyval list \<Rightarrow> py_error + frame" where
  "set_index f names =
     (if length names = length (index f) then Inr (f\<lparr>index := names\<rparr>) else Inl ValueError)"

text \<open>
  \<open>sort_index(ascending=False)\<close>: the positions of the labels in descending order, equal
  labels keeping their order (pandas reverses, sorts ascending and reverses again).
  Integers compare with integers and strings with strings; a mixed label list raises
  \<open>TypeError\<close>.
\<close>

fun as_int :: "pyval \<Rightarrow> int option" where
  "as_int (PyInt n) = Some n"
| "as_int _ = None"

fun as_str :: "pyval \<Rightarrow> string option" where
  "as_str (PyStr s) = Some s"
| "as_str _ = None"

definition descending :: "('a :: linorder) list \<Rightarrow> nat list" where
  "descending ls = rev (sort_key (\<lambda>i. ls ! i) (rev [0..<length ls]))"

definition label_order :: "pyval list \<Rightarrow> py_error + nat list" where
  "label_order ls =
     (case those (map as_int ls) of
        Some ns \<Rightarrow> Inr (descending ns)
      | None \<Rightarrow>
          (case those (map as_str ls) of
             Some ss \<Rightarrow> Inr (descending ss)
           | None \<Rightarrow> Inl TypeError))"

definition sort_index0 :: "frame \<Rightarrow> py_error + frame" where
  "sort_index0 f =
     (case label_order (index f) of
        Inl e \<Rightarrow> Inl e
      | Inr ord \<Rightarrow> Inr (f\<lparr>index := map (\<lambda>i. index f ! i) ord, rows := map (\<lambda>i. rows f ! i) ord\<rparr>))"

definition sort_index1 :: "frame \<Rightarrow> py_error + frame" where
  "sort_index1 f =
     (case label_order (columns f) of
        Inl e \<Rightarrow> Inl e
      | Inr ord \<Rightarrow>
          Inr (f\<lparr>columns := map (\<lambda>i. columns f ! i) ord,
                 rows := map (\<lambda>row. map (\<lambda>i. row ! i) ord) (rows f)\<rparr>))"

text \<open>
  The orders part of \<open>load_files\<close>: both frames are relabelled with the converted labels
  of the vegetarian frame, sorted descending along both axes and stacked into
  \<open>OrdersDF\<close>, whose axis 0 is the category, axis 1 the frame index (the inner keys) and
  axis 2 the frame columns (the outer keys). The counts are kept as integers; numpy
  holds them as 64-bit integers, so the model is of order counts below \<open>2^63\<close>.
\<close>

datatype 'a loaded = Loaded 'a | Raises py_error | Unmodelled

definition and_then :: "'e + 'a \<Rightarrow> ('a \<Rightarrow> 'e + 'b) \<Rightarrow> 'e + 'b" where
  "and_then r f = (case r of Inl e \<Rightarrow> Inl e | Inr x \<Rightarrow> f x)"

definition relabel_and_sort :: "frame \<Rightarrow> frame \<Rightarrow> py_error + (frame \<times> frame)" where
  "relabel_and_sort VegOrdersDF GourmOrdersDF =
     (let colnames = map obtain_numbers (columns VegOrdersDF) in
      and_then (set_columns VegOrdersDF colnames) (\<lambda>Veg1.
      and_then (set_columns GourmOrdersDF colnames) (\<lambda>Gourm1.
      (let indexnames = map obtain_numbers (index Veg1) in
       and_then (set_index Veg1 indexnames) (\<lambda>Veg2.
       and_then (set_index Gourm1 indexnames) (\<lambda>Gourm2.
       and_then (sort_index0 Veg2) (\<lambda>Veg3.
       and_then (sort_index1 Veg3) (\<lambda>Veg4.
       and_then (sort_index0 Gourm2) (\<lambda>Gourm3.
       and_then (sort_index1 Gourm3) (\<lambda>Gourm4.
       Inr (Veg4, Gourm4)))))))))))"

definition stack_frames :: "frame \<Rightarrow> frame \<Rightarrow> ndarray3" where
  "stack_frames VegOrdersDF GourmOrdersDF =
     \<lparr>shape0 = 2, shape1 = length (index VegOrdersDF), shape2 = length (columns VegOrdersDF),
      item = (\<lambda>i j k. rows ([VegOrdersDF, GourmOrdersDF] ! i) ! j ! k)\<rparr>"

definition load_orders :: "orders_json \<Rightarrow> (ndarray3 \<times> pyval ordersdict) loaded" where
  "load_orders orders =
     (case (from_dict (vegetarian orders), from_dict (gourmet orders)) of
        (Some VegOrdersDF, Some GourmOrdersDF) \<Rightarrow>
          (case relabel_and_sort VegOrdersDF GourmOrdersDF of
             Inl e \<Rightarrow> Raises e
           | Inr (Veg, Gourm) \<Rightarrow>
               Loaded (stack_frames Veg Gourm,
                       \<lparr>axis0 = [''vegetarian'', ''gourmet''],
                        axis1 = index Veg, axis2 = columns Veg\<rparr>))
      | _ \<Rightarrow> Unmodelled)"

text \<open>The stock part: one row per recipe of the stock file, in file order.\<close>

definition load_stock :: "(string \<times> stock_row) list \<Rightarrow> stock_row list" where
  "load_stock stock = map snd stock"

text \<open>
  \<open>default_orders_satisfied\<close> loads and then calls \<open>fulfil_orders\<close>. The cascade is modelled
  for integer labels; labels outside the vocabulary stay strings, the specification
  leaves the behaviour on them undefined, and such a run is outside this model.
\<close>

definition numeric_labels :: "pyval ordersdict \<Rightarrow> int ordersdict option" where
  "numeric_labels Ordersdict =
     (case (those (map as_int (axis1 Ordersdict)), those (map as_int (axis2 Ordersdict))) of
        (Some labels1, Some labels2) \<Rightarrow>
          Some \<lparr>axis0 = axis0 Ordersdict, axis1 = labels1, axis2 = labels2\<rparr>
      | _ \<Rightarrow> None)"

definition default_orders_satisfied ::
  "argpartition \<Rightarrow> orders_json \<Rightarrow> (string \<times> stock_row) list \<Rightarrow> (outcome \<times> run_state) loaded" where
  "default_orders_satisfied ap orders stock =
     (case load_orders orders of
        Loaded (OrdersDF, Ordersdict) \<Rightarrow>
          (case numeric_labels Ordersdict of
             Some labels \<Rightarrow> Loaded (fulfil_orders ap (load_stock stock) OrdersDF labels)
           | None \<Rightarrow> Unmodelled)
      | Raises e \<Rightarrow> Raises e
      | Unmodelled \<Rightarrow> Unmodelled)"

section \<open>The allocation as the specification words it\<close>

text \<open>
  A list of indices is a top choice of \<open>a\<close> when its indices are distinct positions of \<open>a\<close>
  and no position left out holds more than a chosen one; \<open>top_k a k\<close> is a top choice of \<open>k\<close>
  positions: the \<open>k\<close> entries with the greatest stock, whatever the rule for ties.
\<close>

definition top_choice :: "int list \<Rightarrow> nat list \<Rightarrow> bool" where
  "top_choice a choices \<longleftrightarrow>
     distinct choices \<and> list_all (\<lambda>i. i < length a) choices \<and>
     list_all (\<lambda>i. list_all (\<lambda>j. j \<in> set choices \<or> a ! j \<le> a ! i) [0..<length a]) choices"

definition top_k :: "int list \<Rightarrow> nat \<Rightarrow> nat list \<Rightarrow> bool" where
  "top_k a k choices \<longleftrightarrow> length choices = k \<and> top_choice a choices"

text \<open>The selection \<open>allocate_recipes\<close> makes on a stock array.\<close>

definition selection :: "argpartition \<Rightarrow> int \<Rightarrow> int list \<Rightarrow> nat list" where
  "selection ap N_recipes stock_levels =
     (case recipe_choices ap stock_levels N_recipes of Inr choices \<Rightarrow> choices | Inl e \<Rightarrow> [])"

text \<open>
  The specification's process for a subset that has enough recipes, given a selection
  rule: orders are counted down; each order selects, stops with the current stock and
  the counter when the least selected stock is below the portion size, and otherwise
  subtracts the portion size from every selected entry; when no order is left the
  unmet count is 0.
\<close>

fun spec_allocate :: "(int list \<Rightarrow> nat list) \<Rightarrow> nat \<Rightarrow> int list \<Rightarrow> int \<Rightarrow> int list \<times> int" where
  "spec_allocate select 0 stock_subset portion_size = (stock_subset, 0)"
| "spec_allocate select (Suc m) stock_subset portion_size =
     (let selected = select stock_subset in
      if Min (set (take_at stock_subset selected)) < portion_size
      then (stock_subset, int (Suc m))
      else spec_allocate select m (subtract_at stock_subset selected portion_size) portion_size)"

section \<open>Notions used in the proofs\<close>

text \<open>The position at which the selected tail of the permutation starts, if numpy accepts
  \<open>kth = -N_recipes\<close> for an array of \<open>n\<close> entries.\<close>

definition kth_of :: "nat \<Rightarrow> int \<Rightarrow> nat option" where
  "kth_of n N_recipes =
     (let k = (if - N_recipes < 0 then - N_recipes + int n else - N_recipes)
      in if k < 0 \<or> int n \<le> k then None else Some (nat k))"

text \<open>
  The number of entries of at least \<open>v\<close>. Whether an order can be met, and how many entries
  of at least \<open>v\<close> remain after it, depend on the stock only through these numbers; a
  stock \<open>b\<close> dominates \<open>a\<close> when it has at least as many entries above every threshold.
\<close>

definition count_ge :: "int \<Rightarrow> int list \<Rightarrow> nat" where
  "count_ge v a = length (filter (\<lambda>x. v \<le> x) a)"

definition dominated :: "int list \<Rightarrow> int list \<Rightarrow> bool" where
  "dominated a b \<longleftrightarrow> length a = length b \<and> (\<forall>v. count_ge v a \<le> count_ge v b)"

definition at_least :: "int list \<Rightarrow> int \<Rightarrow> nat set" where
  "at_least a w = {i. i < length a \<and> w \<le> a ! i}"

text \<open>The state a step ends in, and the invariant of a run: no negative count in the
  pool nor in any array handed to \<open>allocate_recipes\<close>.\<close>

fun state_of :: "step \<Rightarrow> run_state" where
  "state_of (Continue st) = st"
| "state_of (Stop out st) = st"

definition non_negative :: "int list \<Rightarrow> bool" where
  "non_negative xs = list_all (\<lambda>x. 0 \<le> x) xs"

definition calls_non_negative :: "run_state \<Rightarrow> bool" where
  "calls_non_negative st = list_all (\<lambda>c. non_negative (call_stock c)) (calls st)"

definition run_non_negative :: "run_state \<Rightarrow> bool" where
  "run_non_negative st \<longleftrightarrow> non_negative (stocks st) \<and> calls_non_negative st"

section \<open>Example inputs\<close>

text \<open>A gourmet cell that the gourmet stock alone cannot meet and the combined pool can.\<close>

definition example_stock :: "stock_row list" where
  "example_stock =
     [\<lparr>stock_count = 5, box_type = ''vegetarian''\<rparr>,
      \<lparr>stock_count = 5, box_type = ''vegetarian''\<rparr>,
      \<lparr>stock_count = 5, box_type = ''gourmet''\<rparr>]"

definition example_orders :: ndarray3 where
  "example_orders =
     \<lparr>shape0 = 2, shape1 = 1, shape2 = 2,
      item = (\<lambda>i j k. [[[0, 0]], [[3, 1]]] ! i ! j ! k)\<rparr>"

definition example_dict :: "int ordersdict" where
  "example_dict = \<lparr>axis0 = [''vegetarian'', ''gourmet''], axis1 = [1], axis2 = [2, 1]\<rparr>"

definition example_state :: run_state where
  "example_state =
     \<lparr>stocks = [5, 5, 5],
      calls =
        [\<lparr>call_pool = VegetarianOnly, call_orders = 0, call_stock = [5, 5],
           call_portions = 2, call_recipes = 1\<rparr>,
         \<lparr>call_pool = VegetarianOnly, call_orders = 0, call_stock = [5, 5],
           call_portions = 1, call_recipes = 1\<rparr>]\<rparr>"

text \<open>A gourmet cell that the combined pool cannot meet either.\<close>

definition scarce_stock :: "stock_row list" where
  "scarce_stock =
     [\<lparr>stock_count = 5, box_type = ''vegetarian''\<rparr>,
      \<lparr>stock_count = 3, box_type = ''gourmet''\<rparr>]"

definition scarce_orders :: ndarray3 where
  "scarce_orders =
     \<lparr>shape0 = 2, shape1 = 1, shape2 = 1, item = (\<lambda>i j k. [[[1]], [[4]]] ! i ! j ! k)\<rparr>"

definition scarce_dict :: "int ordersdict" where
  "scarce_dict = \<lparr>axis0 = [''vegetarian'', ''gourmet''], axis1 = [1], axis2 = [2]\<rparr>"

text \<open>A vegetarian cell that fails after an earlier one was met.\<close>

definition short_stock :: "stock_row list" where
  "short_stock =
     [\<lparr>stock_count = 6, box_type = ''vegetarian''\<rparr>,
      \<lparr>stock_count = 6, box_type = ''vegetarian''\<rparr>,
      \<lparr>stock_count = 9, box_type = ''gourmet''\<rparr>]"

definition short_orders :: ndarray3 where
  "short_orders =
     \<lparr>shape0 = 2, shape1 = 1, shape2 = 2, item = (\<lambda>i j k. [[[1, 2]], [[1, 1]]] ! i ! j ! k)\<rparr>"

definition short_dict :: "int ordersdict" where
  "short_dict = \<lparr>axis0 = [''vegetarian'', ''gourmet''], axis1 = [2], axis2 = [4, 2]\<rparr>"

definition short_state :: run_state where
  "short_state =
     \<lparr>stocks = [2, 2, 9],
      calls = [\<lparr>call_pool = VegetarianOnly, call_orders = 1, call_stock = [6, 6],
                call_portions = 4, call_recipes = 2\<rparr>]\<rparr>"

text \<open>An orders file in the shape of the data contract (portion-size labels outside,
  recipes-per-box labels inside) and a stock file.\<close>

definition contract_orders :: orders_json where
  "contract_orders =
     \<lparr>vegetarian =
        [(''two_portions'', [(''two_recipes'', 1), (''three_recipes'', 1)]),
         (''four_portions'', [(''two_recipes'', 1), (''three_recipes'', 1)])],
      gourmet =
        [(''two_portions'', [(''two_recipes'', 0), (''three_recipes'', 0)]),
         (''four_portions'', [(''two_recipes'', 0), (''three_recipes'', 0)])]\<rparr>"

definition contract_stock :: "(string \<times> stock_row) list" where
  "contract_stock =
     [(''1'', \<lparr>stock_count = 20, box_type = ''vegetarian''\<rparr>),
      (''2'', \<lparr>stock_count = 20, box_type = ''vegetarian''\<rparr>),
      (''3'', \<lparr>stock_count = 20, box_type = ''vegetarian''\<rparr>),
      (''4'', \<lparr>stock_count = 20, box_type = ''gourmet''\<rparr>)]"

declare allocate_loop.simps [simp del]

section \<open>The selection\<close>

text \<open>
  Under the contract of \<open>argpartition\<close> the chosen indices are a top choice, they are never
  empty, and how many are chosen depends only on the length of the array and on
  \<open>N_recipes\<close>.
\<close>

lemma top_choice_iff:
  "top_choice a cs \<longleftrightarrow>
     distinct cs \<and> (\<forall>i\<in>set cs. i < length a \<and> (\<forall>j<length a. j \<notin> set cs \<longrightarrow> a ! j \<le> a ! i))"
proof -
  have "(\<forall>j\<in>set [0..<length a]. j \<in> set cs \<or> a ! j \<le> a ! i) \<longleftrightarrow>
        (\<forall>j<length a. j \<notin> set cs \<longrightarrow> a ! j \<le> a ! i)" for i
    by auto
  then show ?thesis
    unfolding top_choice_def list_all_iff by blast
qed

lemma top_choiceD:
  assumes "top_choice a cs"
  shows "distinct cs" "\<And>i. i \<in> set cs \<Longrightarrow> i < length a"
    "\<And>i j. i \<in> set cs \<Longrightarrow> j < length a \<Longrightarrow> j \<notin> set cs \<Longrightarrow> a ! j \<le> a ! i"
  using assms unfolding top_choice_iff by blast+

lemma top_choiceI:
  assumes "distinct cs" "\<And>i. i \<in> set cs \<Longrightarrow> i < length a"
    "\<And>i j. i \<in> set cs \<Longrightarrow> j < length a \<Longrightarrow> j \<notin> set cs \<Longrightarrow> a ! j \<le> a ! i"
  shows "top_choice a cs"
  using assms unfolding top_choice_iff by blast

lemma argpartition_specD:
  assumes "argpartition_spec ap" "kth < length a"
  shows "mset (ap a kth) = mset [0..<length a]"
    "\<And>i. i < kth \<Longrightarrow> a ! (ap a kth ! i) \<le> a ! (ap a kth ! kth)"
    "\<And>i. kth < i \<Longrightarrow> i < length a \<Longrightarrow> a ! (ap a kth ! kth) \<le> a ! (ap a kth ! i)"
  using assms unfolding argpartition_spec_def by blast+

lemma recipe_choices_empty: "recipe_choices ap [] r = Inr []"
  by (simp add: recipe_choices_def np_argpartition_def slice_from_def)

lemma recipe_choices_eq:
  assumes "argpartition_spec ap" "a \<noteq> []"
  shows "recipe_choices ap a r =
     (case kth_of (length a) r of None \<Rightarrow> Inl ValueError | Some k \<Rightarrow> Inr (drop k (ap a k)))"
proof (cases "kth_of (length a) r")
  case None
  then show ?thesis using assms(2)
    by (auto simp: recipe_choices_def np_argpartition_def kth_of_def Let_def split: if_splits)
next
  case (Some k)
  then have k: "k < length a" by (auto simp: kth_of_def Let_def split: if_splits)
  have len: "length (ap a k) = length a"
    using argpartition_specD(1)[OF assms(1) k] by (metis length_upt mset_eq_length minus_nat.diff_0)
  from Some len assms(2) show ?thesis
    by (auto simp: recipe_choices_def np_argpartition_def kth_of_def Let_def slice_from_def
        split: if_splits)
qed

lemma drop_top_choice:
  assumes "argpartition_spec ap" "k < length a"
  shows "top_choice a (drop k (ap a k))" "length (drop k (ap a k)) = length a - k"
proof -
  let ?idx = "ap a k"
  have m: "mset ?idx = mset [0..<length a]" using argpartition_specD(1)[OF assms] .
  have len: "length ?idx = length a" using m by (metis length_upt mset_eq_length minus_nat.diff_0)
  have d: "distinct ?idx" using m by (metis distinct_upt mset_eq_imp_distinct_iff)
  have s: "set ?idx = {0..<length a}" using m by (metis mset_eq_setD set_upt)
  show "length (drop k ?idx) = length a - k" by (simp add: len)
  show "top_choice a (drop k ?idx)"
  proof (rule top_choiceI)
    show "distinct (drop k ?idx)" using d by simp
  next
    fix i assume "i \<in> set (drop k ?idx)"
    then have "i \<in> set ?idx" by (rule in_set_dropD)
    then show "i < length a" using s by simp
  next
    fix i j assume i: "i \<in> set (drop k ?idx)" and j: "j < length a" "j \<notin> set (drop k ?idx)"
    from i obtain m where m: "m < length ?idx - k" "i = ?idx ! (k + m)"
      by (auto simp: in_set_conv_nth)
    from j s have "j \<in> set ?idx" by simp
    then obtain m' where m': "m' < length ?idx" "j = ?idx ! m'" by (auto simp: in_set_conv_nth)
    have "m' < k"
    proof (rule ccontr)
      assume "\<not> m' < k"
      then have "?idx ! m' \<in> set (drop k ?idx)"
        using m' by (auto simp: in_set_conv_nth intro!: exI[of _ "m' - k"])
      with j m' show False by simp
    qed
    then have "a ! j \<le> a ! (?idx ! k)" using argpartition_specD(2)[OF assms] m' by simp
    also have "\<dots> \<le> a ! i"
    proof (cases "m = 0")
      case True then show ?thesis using m by simp
    next
      case False
      then show ?thesis using argpartition_specD(3)[OF assms, of "k + m"] m len by simp
    qed
    finally show "a ! j \<le> a ! i" .
  qed
qed

lemma recipe_choices_top:
  assumes "argpartition_spec ap" "recipe_choices ap a r = Inr cs" "cs \<noteq> []"
  shows "top_choice a cs" "kth_of (length a) r = Some (length a - length cs)"
proof -
  have ne: "a \<noteq> []" using assms(2,3) by (auto simp: recipe_choices_empty)
  from assms(1,2) ne obtain k where k: "kth_of (length a) r = Some k" "cs = drop k (ap a k)"
    by (auto simp: recipe_choices_eq split: option.splits)
  then have kl: "k < length a" by (auto simp: kth_of_def Let_def split: if_splits)
  show "top_choice a cs" using drop_top_choice(1)[OF assms(1) kl] k by simp
  have l: "length cs = length a - k" using drop_top_choice(2)[OF assms(1) kl] k by simp
  show "kth_of (length a) r = Some (length a - length cs)" using l kl k by simp
qed

lemma recipe_choices_same_length:
  assumes "argpartition_spec ap" "length a = length b" "recipe_choices ap a r = Inr cs"
  obtains cs' where "recipe_choices ap b r = Inr cs'" "length cs' = length cs"
proof (cases "a = []")
  case True
  then have "b = []" "cs = []" using assms(2,3) by (auto simp: recipe_choices_empty)
  then show ?thesis using that[of "[]"] by (simp add: recipe_choices_empty)
next
  case False
  then have neb: "b \<noteq> []" using assms(2) by auto
  from assms(1,3) False obtain k where k: "kth_of (length a) r = Some k" "cs = drop k (ap a k)"
    by (auto simp: recipe_choices_eq split: option.splits)
  then have kl: "k < length a" by (auto simp: kth_of_def Let_def split: if_splits)
  have "recipe_choices ap b r = Inr (drop k (ap b k))"
    using k(1) assms(2) by (simp add: recipe_choices_eq[OF assms(1) neb])
  moreover have "length (drop k (ap b k)) = length cs"
    using drop_top_choice(2)[OF assms(1), of k a] drop_top_choice(2)[OF assms(1), of k b] kl k(2) assms(2)
    by simp
  ultimately show ?thesis using that by blast
qed

lemma kth_of_in_range:
  "1 \<le> r \<Longrightarrow> r \<le> int n \<Longrightarrow> kth_of n r = Some (n - nat r)"
  by (auto simp: kth_of_def Let_def)

lemma selection_top_k:
  assumes "argpartition_spec ap" "1 \<le> r" "r \<le> int (length a)"
  shows "recipe_choices ap a r = Inr (selection ap r a)" "top_k a (nat r) (selection ap r a)"
proof -
  have k: "kth_of (length a) r = Some (length a - nat r)" using assms(2,3) by (rule kth_of_in_range)
  have kl: "length a - nat r < length a" using assms(2,3) by auto
  then have ne: "a \<noteq> []" by auto
  have rc: "recipe_choices ap a r = Inr (drop (length a - nat r) (ap a (length a - nat r)))"
    by (simp add: recipe_choices_eq[OF assms(1) ne] k)
  then show "recipe_choices ap a r = Inr (selection ap r a)" by (simp add: selection_def)
  have "length (selection ap r a) = nat r"
    using drop_top_choice(2)[OF assms(1) kl] rc assms(2,3) by (simp add: selection_def)
  moreover have "top_choice a (selection ap r a)"
    using drop_top_choice(1)[OF assms(1) kl] rc by (simp add: selection_def)
  ultimately show "top_k a (nat r) (selection ap r a)" by (simp add: top_k_def)
qed

text \<open>A full stable argsort meets the contract.\<close>

lemma argsort_spec: "argpartition_spec argsort"
  unfolding argpartition_spec_def
proof (intro allI impI conjI)
  fix a :: "int list" and kth i
  let ?xs = "sort_key (\<lambda>i. a ! i) [0..<length a]"
  have srt: "sorted (map (\<lambda>i. a ! i) ?xs)" by (rule sorted_sort_key)
  have len: "length ?xs = length a" by simp
  show "mset (argsort a kth) = mset [0..<length a]" by (simp add: argsort_def)
  { assume "kth < length a" "i < kth"
    then show "a ! (argsort a kth ! i) \<le> a ! (argsort a kth ! kth)"
      using sorted_nth_mono[OF srt, of i kth] by (simp add: argsort_def) }
  { assume "kth < length a" "kth < i \<and> i < length a"
    then show "a ! (argsort a kth ! kth) \<le> a ! (argsort a kth ! i)"
      using sorted_nth_mono[OF srt, of kth i] by (simp add: argsort_def) }
qed

section \<open>The loop of \<open>allocate_recipes\<close>\<close>

lemma length_subtract_at [simp]: "length (subtract_at a cs p) = length a"
  by (simp add: subtract_at_def)

lemma nth_subtract_at:
  "i < length a \<Longrightarrow> subtract_at a cs p ! i = (if i \<in> set cs then a ! i - p else a ! i)"
  by (simp add: subtract_at_def)

lemma length_allocate_loop:
  "allocate_loop ap n a p r = Inr (s, u) \<Longrightarrow> length s = length a"
proof (induction ap n a p r rule: allocate_loop.induct)
  case (1 ap n a p r)
  show ?case
  proof (cases "n \<le> 0")
    case True
    with "1.prems" show ?thesis by (simp add: allocate_loop.simps)
  next
    case False
    with "1.prems" obtain cs where cs: "recipe_choices ap a r = Inr cs" "cs \<noteq> []"
      by (subst (asm) allocate_loop.simps) (auto split: sum.splits if_splits)
    show ?thesis
    proof (cases "Min (set (take_at a cs)) < p")
      case True
      with False cs "1.prems" show ?thesis by (subst (asm) allocate_loop.simps) simp
    next
      case F2: False
      with False cs "1.prems" have "allocate_loop ap (n - 1) (subtract_at a cs p) p r = Inr (s, u)"
        by (subst (asm) allocate_loop.simps) simp
      from "1.IH"[OF False cs(1) cs(2) F2 this] show ?thesis by simp
    qed
  qed
qed

lemma length_allocate_recipes:
  "allocate_recipes ap n a p r = Inr (s, u) \<Longrightarrow> length s = length a"
  by (auto simp: allocate_recipes_def split: if_splits dest: length_allocate_loop)

lemma allocate_loop_done: "n \<le> 0 \<Longrightarrow> allocate_loop ap n a p r = Inr (a, 0)"
  by (simp add: allocate_loop.simps)

lemma allocate_loop_raise:
  "0 < n \<Longrightarrow> recipe_choices ap a r = Inl e \<Longrightarrow> allocate_loop ap n a p r = Inl e"
  by (subst allocate_loop.simps) simp

lemma allocate_loop_stop:
  "0 < n \<Longrightarrow> recipe_choices ap a r = Inr cs \<Longrightarrow> cs \<noteq> [] \<Longrightarrow>
   Min (set (take_at a cs)) < p \<Longrightarrow> allocate_loop ap n a p r = Inr (a, n)"
  by (subst allocate_loop.simps) simp

lemma allocate_loop_step:
  "0 < n \<Longrightarrow> recipe_choices ap a r = Inr cs \<Longrightarrow> cs \<noteq> [] \<Longrightarrow>
   \<not> Min (set (take_at a cs)) < p \<Longrightarrow>
   allocate_loop ap n a p r = allocate_loop ap (n - 1) (subtract_at a cs p) p r"
  by (subst allocate_loop.simps) simp

lemma Min_take_at:
  assumes "cs \<noteq> []"
  shows "\<not> Min (set (take_at a cs)) < p \<longleftrightarrow> (\<forall>i\<in>set cs. p \<le> a ! i)"
proof -
  have ne: "set (take_at a cs) \<noteq> {}" using assms by (simp add: take_at_def)
  have "\<not> Min (set (take_at a cs)) < p \<longleftrightarrow> p \<le> Min (set (take_at a cs))" by auto
  also have "\<dots> \<longleftrightarrow> (\<forall>x\<in>set (take_at a cs). p \<le> x)" using ne by (simp add: Min_ge_iff)
  also have "\<dots> \<longleftrightarrow> (\<forall>i\<in>set cs. p \<le> a ! i)" by (simp add: take_at_def)
  finally show ?thesis .
qed

text \<open>Once the first order has found a selection that is not empty the loop returns: it
  raises nothing later, and the unmet count lies between 0 and the number of orders.\<close>

lemma allocate_loop_returns:
  assumes "argpartition_spec ap" "recipe_choices ap a r = Inr cs" "cs \<noteq> []"
  shows "\<exists>s u. allocate_loop ap n a p r = Inr (s, u) \<and> 0 \<le> u \<and> u \<le> max n 0"
  using assms(2,3)
proof (induction "nat n" arbitrary: n a cs)
  case 0
  then show ?case by (simp add: allocate_loop_done)
next
  case (Suc m)
  then have pos: "0 < n" by simp
  note rc = Suc.prems(1) and ne = Suc.prems(2)
  show ?case
  proof (cases "Min (set (take_at a cs)) < p")
    case True
    then show ?thesis using allocate_loop_stop[OF pos rc ne True] pos by simp
  next
    case False
    have l: "length (subtract_at a cs p) = length a" by simp
    obtain cs' where cs': "recipe_choices ap (subtract_at a cs p) r = Inr cs'"
      "length cs' = length cs"
      using recipe_choices_same_length[OF assms(1) l[symmetric] rc] by blast
    have ne': "cs' \<noteq> []" using cs'(2) ne by auto
    have m: "m = nat (n - 1)" using Suc.hyps(2) by simp
    from Suc.hyps(1)[OF m cs'(1) ne'] obtain s u where
      "allocate_loop ap (n - 1) (subtract_at a cs p) p r = Inr (s, u)" "0 \<le> u" "u \<le> max (n - 1) 0"
      by blast
    then show ?thesis using allocate_loop_step[OF pos rc ne False] pos by auto
  qed
qed

text \<open>A call that raises does so for its first order: the selection raises, or it is
  empty and \<open>min\<close> raises.\<close>

lemma allocate_loop_raises_at_once:
  assumes "argpartition_spec ap" "allocate_loop ap n a p r = Inl e"
  shows "recipe_choices ap a r = Inl e \<or> (recipe_choices ap a r = Inr [] \<and> e = ValueError)"
proof (cases "recipe_choices ap a r")
  case (Inl e')
  have "0 < n" using assms(2) by (cases "n \<le> 0") (simp_all add: allocate_loop_done)
  then show ?thesis using allocate_loop_raise[OF _ Inl, of n p] assms(2) Inl by simp
next
  case (Inr cs)
  have pos: "0 < n" using assms(2) by (cases "n \<le> 0") (simp_all add: allocate_loop_done)
  show ?thesis
  proof (cases "cs = []")
    case True
    then show ?thesis using assms(2) pos Inr by (subst (asm) allocate_loop.simps) simp
  next
    case False
    then show ?thesis using allocate_loop_returns[OF assms(1) Inr False, of n p] assms(2) by auto
  qed
qed

section \<open>Zero demand and too few recipes\<close>

text \<open>
  Claim C8 (zero-demand identity): for every stock subset, every portion size and every
  recipes-per-box count, \<open>allocate_recipes\<close> with zero orders returns the stock unchanged
  and an unmet count of 0, also when the subset has fewer than \<open>N_recipes\<close> entries.
\<close>

theorem zero_demand_identity:
  "allocate_recipes ap 0 stock_levels N_portions N_recipes = Inr (stock_levels, 0)"
  by (simp add: allocate_recipes_def allocate_loop_done)

text \<open>
  Claim C5 (insufficient variety): when the stock subset has fewer entries than
  \<open>N_recipes\<close>, \<open>allocate_recipes\<close> returns the subset unchanged and an unmet count equal to
  the order count, for every order count, portion size and recipes-per-box count.
\<close>

theorem insufficient_variety:
  "int (length stock_levels) < N_recipes \<Longrightarrow>
   allocate_recipes ap N_orders stock_levels N_portions N_recipes = Inr (stock_levels, N_orders)"
  by (simp add: allocate_recipes_def)

theorem insufficient_variety_witness:
  "int (length [7 :: int]) < 2 \<and> allocate_recipes argsort 4 [7] 2 2 = Inr ([7], 4)"
  using insufficient_variety[of "[7]" 2 argsort 4 2] by simp

section \<open>The loop against the specification's process\<close>

lemma allocate_loop_refines:
  assumes "argpartition_spec ap" "1 \<le> r" "r \<le> int (length a)"
  shows "allocate_loop ap n a p r = Inr (spec_allocate (selection ap r) (nat n) a p)"
  using assms(3)
proof (induction "nat n" arbitrary: n a)
  case 0
  then show ?case by (simp add: allocate_loop_done)
next
  case (Suc m)
  then have pos: "0 < n" and m: "m = nat (n - 1)" by auto
  have n: "nat n = Suc m" using Suc.hyps(2) by simp
  have n': "int (Suc m) = n" using Suc.hyps(2) by linarith
  note sel = selection_top_k[OF assms(1,2) Suc.prems]
  have ne: "selection ap r a \<noteq> []" using sel(2) assms(2) by (auto simp: top_k_def)
  show ?case
  proof (cases "Min (set (take_at a (selection ap r a))) < p")
    case True
    then show ?thesis
      using allocate_loop_stop[OF pos sel(1) ne True] n' by (simp add: n Let_def)
  next
    case False
    have "r \<le> int (length (subtract_at a (selection ap r a) p))" using Suc.prems by simp
    from Suc.hyps(1)[OF m this] show ?thesis
      using allocate_loop_step[OF pos sel(1) ne False] False m by (simp add: n Let_def)
  qed
qed

text \<open>
  Claim C4, amended to \<open>1 \<le> N_recipes \<le> len(stock_levels)\<close>: \<open>allocate_recipes\<close> raises
  nothing and returns what the specification's process returns: orders are counted down
  from the order count to 1; each order selects the \<open>N_recipes\<close> entries with the greatest
  current stock; if the least of them is below the portion size the stock as left by the
  completed orders is returned with the number of orders not yet processed, the current
  one included; otherwise the portion size is subtracted from each selected entry; the
  unmet count is 0 when all orders complete. The selection is a top choice of
  \<open>N_recipes\<close> entries on every array of that length.
\<close>

theorem allocate_recipes_refines:
  assumes "argpartition_spec ap" "1 \<le> N_recipes" "N_recipes \<le> int (length stock_levels)"
  shows "allocate_recipes ap N_orders stock_levels N_portions N_recipes =
           Inr (spec_allocate (selection ap N_recipes) (nat N_orders) stock_levels N_portions) \<and>
         (length a = length stock_levels \<longrightarrow> top_k a (nat N_recipes) (selection ap N_recipes a))"
proof (intro conjI impI)
  show "allocate_recipes ap N_orders stock_levels N_portions N_recipes =
           Inr (spec_allocate (selection ap N_recipes) (nat N_orders) stock_levels N_portions)"
    using allocate_loop_refines[OF assms] assms(3) by (simp add: allocate_recipes_def)
  assume "length a = length stock_levels"
  then show "top_k a (nat N_recipes) (selection ap N_recipes a)"
    using selection_top_k(2)[OF assms(1,2), of a] assms(3) by simp
qed

theorem allocate_recipes_refines_witness:
  "argpartition_spec argsort \<and> (1::int) \<le> 2 \<and> (2::int) \<le> int (length [5, 3, 4 :: int]) \<and>
   allocate_recipes argsort 3 [5, 3, 4] 2 2 =
     Inr (spec_allocate (selection argsort 2) (nat 3) [5, 3, 4] 2) \<and>
   spec_allocate (selection argsort 2) (nat 3) [5, 3, 4] 2 = ([1, 1, 2], 1) \<and>
   top_k [5, 3, 4] (nat 2) (selection argsort 2 [5, 3, 4]) \<and>
   selection argsort 2 [5, 3, 4] = [2, 0]"
proof -
  have 1: "(1::int) \<le> 2" by simp
  have 2: "(2::int) \<le> int (length [5, 3, 4 :: int])" by simp
  note r = allocate_recipes_refines[OF argsort_spec 1 2, of 3 2 "[5, 3, 4]"]
  have 3: "allocate_recipes argsort 3 [5, 3, 4] 2 2 =
     Inr (spec_allocate (selection argsort 2) (nat 3) [5, 3, 4] 2)"
    using r by blast
  have 4: "spec_allocate (selection argsort 2) (nat 3) [5, 3, 4] 2 = ([1, 1, 2], 1)" by code_simp
  have 5: "top_k [5, 3, 4] (nat 2) (selection argsort 2 [5, 3, 4])" using r by blast
  have 6: "selection argsort 2 [5, 3, 4] = [2, 0]" by code_simp
  show ?thesis by (intro conjI argsort_spec 1 2 3 4 5 6)
qed

text \<open>
  The claim as stated covers \<open>N_recipes = 0\<close>, where \<open>len(stock_levels) \<ge> N_recipes\<close> holds
  as well. There the slice \<open>[-0:]\<close> is the whole permutation: every entry is selected and
  reduced, not zero entries.
\<close>

theorem zero_recipes_selects_all:
  "recipe_choices argsort [5, 7] 0 = Inr [0, 1] \<and>
   allocate_recipes argsort 1 [5, 7] 1 0 = Inr ([4, 6], 0)"
  by code_simp

section \<open>Monotonicity\<close>

lemma finite_at_least [simp]: "finite (at_least a w)"
  by (simp add: at_least_def)

lemma count_ge_card: "count_ge v a = card (at_least a v)"
  by (simp add: count_ge_def at_least_def length_filter_conv_card)

lemma top_choice_inter:
  assumes "top_choice a cs"
  shows "card (set cs \<inter> at_least a w) = min (length cs) (card (at_least a w))"
proof (cases "set cs \<subseteq> at_least a w")
  case True
  then have "set cs \<inter> at_least a w = set cs" by blast
  moreover have "card (set cs) = length cs" using top_choiceD(1)[OF assms] by (rule distinct_card)
  moreover have "card (set cs) \<le> card (at_least a w)" using True by (simp add: card_mono)
  ultimately show ?thesis by simp
next
  case False
  then obtain i where i: "i \<in> set cs" "i \<notin> at_least a w" by blast
  then have lt: "a ! i < w" using top_choiceD(2)[OF assms, of i] by (simp add: at_least_def)
  have sub: "at_least a w \<subseteq> set cs"
  proof
    fix j assume j: "j \<in> at_least a w"
    show "j \<in> set cs"
    proof (rule ccontr)
      assume "j \<notin> set cs"
      then have "a ! j \<le> a ! i" using top_choiceD(3)[OF assms i(1), of j] j by (simp add: at_least_def)
      with lt j show False by (simp add: at_least_def)
    qed
  qed
  then have "set cs \<inter> at_least a w = at_least a w" by blast
  moreover have "card (at_least a w) \<le> card (set cs)" using sub by (simp add: card_mono)
  moreover have "card (set cs) = length cs" using top_choiceD(1)[OF assms] by (rule distinct_card)
  ultimately show ?thesis by simp
qed

lemma feasible_iff_count:
  assumes "top_choice a cs" "cs \<noteq> []"
  shows "\<not> Min (set (take_at a cs)) < p \<longleftrightarrow> length cs \<le> count_ge p a"
proof -
  have c: "card (set cs) = length cs" using top_choiceD(1)[OF assms(1)] by (rule distinct_card)
  have "(\<forall>i\<in>set cs. p \<le> a ! i) \<longleftrightarrow> set cs \<subseteq> at_least a p"
    using top_choiceD(2)[OF assms(1)] by (auto simp: at_least_def)
  also have "\<dots> \<longleftrightarrow> set cs \<inter> at_least a p = set cs" by blast
  also have "\<dots> \<longleftrightarrow> card (set cs \<inter> at_least a p) = card (set cs)"
    by (metis List.finite_set card_subset_eq inf_le1)
  also have "\<dots> \<longleftrightarrow> length cs \<le> count_ge p a"
    unfolding top_choice_inter[OF assms(1)] c count_ge_card by auto
  finally show ?thesis using Min_take_at[OF assms(2)] by simp
qed

lemma count_ge_subtract_at:
  assumes "top_choice a cs"
  shows "count_ge v (subtract_at a cs p) =
           min (length cs) (count_ge (v + p) a) + (count_ge v a - min (length cs) (count_ge v a))"
proof -
  have eq: "at_least (subtract_at a cs p) v = (set cs \<inter> at_least a (v + p)) \<union> (at_least a v - set cs)"
    by (auto simp: at_least_def nth_subtract_at split: if_splits)
  have "card (at_least (subtract_at a cs p) v) =
          card (set cs \<inter> at_least a (v + p)) + card (at_least a v - set cs)"
    unfolding eq by (rule card_Un_disjoint) auto
  moreover have "card (at_least a v - set cs) = card (at_least a v) - card (at_least a v \<inter> set cs)"
    by (rule card_Diff_subset_Int) simp
  moreover have "at_least a v \<inter> set cs = set cs \<inter> at_least a v" by blast
  ultimately show ?thesis
    by (simp add: count_ge_card top_choice_inter[OF assms])
qed

lemma min_shift_mono:
  fixes x y x' y' k :: nat
  assumes "x \<le> x'" "y \<le> y'"
  shows "min k x + (y - min k y) \<le> min k x' + (y' - min k y')"
  using assms by arith

lemma dominated_subtract_at:
  assumes "dominated a b" "top_choice a cs" "top_choice b cs'" "length cs = length cs'"
  shows "dominated (subtract_at a cs p) (subtract_at b cs' p)"
proof -
  have len: "length a = length b" and le: "\<And>v. count_ge v a \<le> count_ge v b"
    using assms(1) by (auto simp: dominated_def)
  have "count_ge v (subtract_at a cs p) \<le> count_ge v (subtract_at b cs' p)" for v
    unfolding count_ge_subtract_at[OF assms(2)] count_ge_subtract_at[OF assms(3)] assms(4)
    by (rule min_shift_mono[OF le[of "v + p"] le[of v]])
  then show ?thesis by (simp add: dominated_def len)
qed

lemma dominated_update:
  assumes "i < length a" "a ! i \<le> v"
  shows "dominated a (a[i := v])"
proof -
  have "at_least a w \<subseteq> at_least (a[i := v]) w" for w
    using assms by (auto simp: at_least_def nth_list_update)
  then have "count_ge w a \<le> count_ge w (a[i := v])" for w
    by (simp add: count_ge_card card_mono)
  then show ?thesis by (simp add: dominated_def)
qed

lemma allocate_loop_mono:
  assumes "argpartition_spec ap" "dominated a b" "allocate_loop ap n a p r = Inr (s, u)"
  shows "\<exists>s' u'. allocate_loop ap n b p r = Inr (s', u') \<and> u' \<le> u"
  using assms(2,3)
proof (induction "nat n" arbitrary: n a b s u)
  case 0
  then show ?case by (simp add: allocate_loop_done)
next
  case (Suc m)
  then have pos: "0 < n" by simp
  have len: "length a = length b" using Suc.prems(1) by (simp add: dominated_def)
  obtain cs where cs: "recipe_choices ap a r = Inr cs"
    using Suc.prems(2) allocate_loop_raise[OF pos, of ap a r _ p]
    by (cases "recipe_choices ap a r") auto
  have ne: "cs \<noteq> []"
    using Suc.prems(2) pos cs by (subst (asm) allocate_loop.simps) (auto split: if_splits)
  have top: "top_choice a cs" using recipe_choices_top(1)[OF assms(1) cs ne] .
  obtain cs' where cs': "recipe_choices ap b r = Inr cs'" "length cs' = length cs"
    using recipe_choices_same_length[OF assms(1) len cs] by blast
  have ne': "cs' \<noteq> []" using cs'(2) ne by auto
  have top': "top_choice b cs'" using recipe_choices_top(1)[OF assms(1) cs'(1) ne'] .
  show ?case
  proof (cases "Min (set (take_at a cs)) < p")
    case True
    then have u: "u = n" using allocate_loop_stop[OF pos cs ne True] Suc.prems(2) by simp
    obtain s' u' where "allocate_loop ap n b p r = Inr (s', u')" "u' \<le> max n 0"
      using allocate_loop_returns[OF assms(1) cs'(1) ne', of n p] by blast
    then show ?thesis using u pos by auto
  next
    case False
    then have "length cs \<le> count_ge p a" using feasible_iff_count[OF top ne] by simp
    also have "\<dots> \<le> count_ge p b" using Suc.prems(1) by (simp add: dominated_def)
    finally have False': "\<not> Min (set (take_at b cs')) < p"
      using feasible_iff_count[OF top' ne'] cs'(2) by simp
    have dom: "dominated (subtract_at a cs p) (subtract_at b cs' p)"
      using dominated_subtract_at[OF Suc.prems(1) top top' cs'(2)[symmetric]] .
    have m: "m = nat (n - 1)" using Suc.hyps(2) by simp
    have "allocate_loop ap (n - 1) (subtract_at a cs p) p r = Inr (s, u)"
      using allocate_loop_step[OF pos cs ne False] Suc.prems(2) by simp
    from Suc.hyps(1)[OF m dom this] show ?thesis
      using allocate_loop_step[OF pos cs'(1) ne' False'] by simp
  qed
qed

text \<open>
  Claim C7 (monotonicity): for a call of \<open>allocate_recipes\<close> that returns, raising the
  value of one stock entry, with the order count, the portion size, the recipes-per-box
  count and all other entries fixed, gives a call that returns too, with an unmet count
  that is not larger.
\<close>

theorem monotonicity:
  assumes "argpartition_spec ap" "i < length stock_levels" "stock_levels ! i \<le> v"
    "allocate_recipes ap N_orders stock_levels N_portions N_recipes = Inr (s, u)"
  shows "\<exists>s' u'. allocate_recipes ap N_orders (stock_levels[i := v]) N_portions N_recipes = Inr (s', u')
           \<and> u' \<le> u"
proof (cases "int (length stock_levels) < N_recipes")
  case True
  then show ?thesis using assms(4) by (simp add: allocate_recipes_def)
next
  case False
  then show ?thesis
    using allocate_loop_mono[OF assms(1) dominated_update[OF assms(2,3)], of N_orders N_portions N_recipes s u]
      assms(4)
    by (simp add: allocate_recipes_def)
qed

theorem monotonicity_witness:
  "argpartition_spec argsort \<and> 1 < length [3, 1 :: int] \<and> [3, 1 :: int] ! 1 \<le> 5 \<and>
   allocate_recipes argsort 2 [3, 1] 2 1 = Inr ([1, 1], 1) \<and>
   allocate_recipes argsort 2 ([3, 1][1 := 5]) 2 1 = Inr ([3, 1], 0) \<and>
   (\<exists>s' u'. allocate_recipes argsort 2 ([3, 1][1 := 5]) 2 1 = Inr (s', u') \<and> u' \<le> 1)"
proof -
  have 1: "1 < length [3, 1 :: int]" by simp
  have 2: "[3, 1 :: int] ! 1 \<le> 5" by simp
  have 3: "allocate_recipes argsort 2 [3, 1] 2 1 = Inr ([1, 1], 1)" by code_simp
  have 4: "allocate_recipes argsort 2 ([3, 1][1 := 5]) 2 1 = Inr ([3, 1], 0)" by code_simp
  show ?thesis
    by (intro conjI argsort_spec 1 2 3 4 monotonicity[OF argsort_spec 1 2 3])
qed

section \<open>Non-negativity\<close>

lemma allocate_loop_nonneg:
  assumes "allocate_loop ap n a p r = Inr (s, u)" "\<forall>x\<in>set a. 0 \<le> x"
  shows "\<forall>x\<in>set s. 0 \<le> x"
  using assms
proof (induction "nat n" arbitrary: n a)
  case 0
  then show ?case by (simp add: allocate_loop_done)
next
  case (Suc m)
  then have pos: "0 < n" by simp
  obtain cs where cs: "recipe_choices ap a r = Inr cs"
    using Suc.prems(1) allocate_loop_raise[OF pos, of ap a r _ p]
    by (cases "recipe_choices ap a r") auto
  have ne: "cs \<noteq> []"
    using Suc.prems(1) pos cs by (subst (asm) allocate_loop.simps) (auto split: if_splits)
  show ?case
  proof (cases "Min (set (take_at a cs)) < p")
    case True
    then show ?thesis using allocate_loop_stop[OF pos cs ne True] Suc.prems by simp
  next
    case False
    then have ge: "\<forall>i\<in>set cs. p \<le> a ! i" using Min_take_at[OF ne] by simp
    have "\<forall>x\<in>set (subtract_at a cs p). 0 \<le> x"
    proof
      fix x assume "x \<in> set (subtract_at a cs p)"
      then obtain i where i: "i < length a" "x = (if i \<in> set cs then a ! i - p else a ! i)"
        by (auto simp: subtract_at_def)
      moreover have "0 \<le> a ! i" using i(1) Suc.prems(2) by simp
      moreover have "i \<in> set cs \<Longrightarrow> p \<le> a ! i" using ge by blast
      ultimately show "0 \<le> x" by (simp split: if_splits)
    qed
    moreover have "allocate_loop ap (n - 1) (subtract_at a cs p) p r = Inr (s, u)"
      using allocate_loop_step[OF pos cs ne False] Suc.prems(1) by simp
    moreover have "m = nat (n - 1)" using Suc.hyps(2) by simp
    ultimately show ?thesis using Suc.hyps(1) by blast
  qed
qed

lemma non_negative_iff: "non_negative xs \<longleftrightarrow> (\<forall>x\<in>set xs. 0 \<le> x)"
  by (simp add: non_negative_def list_all_iff)

lemma allocate_recipes_nonneg:
  assumes "allocate_recipes ap n a p r = Inr (s, u)" "non_negative a"
  shows "non_negative s"
proof (cases "int (length a) < r")
  case True
  then show ?thesis using assms by (simp add: allocate_recipes_def)
next
  case False
  then have "allocate_loop ap n a p r = Inr (s, u)" using assms(1) by (simp add: allocate_recipes_def)
  then show ?thesis using allocate_loop_nonneg assms(2) unfolding non_negative_iff by blast
qed

lemma set_mask_get: "set (mask_get xs bs) \<subseteq> set xs"
  by (induction xs bs rule: mask_get.induct) auto

lemma set_mask_set: "set (mask_set xs bs vs) \<subseteq> set xs \<union> set vs"
  by (induction xs bs vs rule: mask_set.induct) auto

lemma non_negative_mask_get: "non_negative xs \<Longrightarrow> non_negative (mask_get xs bs)"
  using set_mask_get unfolding non_negative_iff by blast

lemma non_negative_mask_set:
  "non_negative xs \<Longrightarrow> non_negative vs \<Longrightarrow> non_negative (mask_set xs bs vs)"
  using set_mask_set[of xs bs vs] unfolding non_negative_iff by blast

lemma record_call_non_negative:
  "run_non_negative st \<Longrightarrow> non_negative given \<Longrightarrow> run_non_negative (record_call st pl n given p r)"
  by (simp add: run_non_negative_def record_call_def calls_non_negative_def)

lemma stocks_update_non_negative: "run_non_negative st \<Longrightarrow> non_negative xs \<Longrightarrow> run_non_negative (st\<lparr>stocks := xs\<rparr>)"
  by (simp add: run_non_negative_def calls_non_negative_def)

lemma visit_cell_non_negative:
  assumes "run_non_negative st"
  shows "run_non_negative (state_of (visit_cell ap vm gm OrdersDF Ordersdict jik st))"
proof -
  obtain j i k where jik: "jik = (j, i, k)" by (cases jik) auto
  have s: "non_negative (stocks st)" using assms by (simp add: run_non_negative_def)
  note nn = allocate_recipes_nonneg non_negative_mask_get[OF s] non_negative_mask_set[OF s]
    record_call_non_negative stocks_update_non_negative
  show ?thesis
    unfolding jik visit_cell_def Let_def
    using assms s
    by (auto split: option.splits sum.splits prod.splits intro!: stocks_update_non_negative record_call_non_negative
        non_negative_mask_set non_negative_mask_get dest: allocate_recipes_nonneg)
qed

lemma run_cells_non_negative:
  "run_non_negative st \<Longrightarrow> run_non_negative (state_of (run_cells (visit_cell ap vm gm OrdersDF Ordersdict) cs st))"
proof (induction cs arbitrary: st)
  case Nil
  then show ?case by simp
next
  case (Cons c cs)
  from visit_cell_non_negative[OF Cons.prems, of ap vm gm OrdersDF Ordersdict c]
  show ?case using Cons.IH
    by (cases "visit_cell ap vm gm OrdersDF Ordersdict c st") auto
qed

lemma snd_finish: "snd (finish s) = state_of s"
  by (cases s) auto

lemma subtract_at_non_negative:
  assumes "non_negative a" "\<not> Min (set (take_at a cs)) < p"
  shows "non_negative (subtract_at a cs p)"
proof (cases "cs = []")
  case True
  then show ?thesis using assms(1) by (simp add: subtract_at_def map_nth)
next
  case False
  then have ge: "\<forall>i\<in>set cs. p \<le> a ! i" using Min_take_at[OF False] assms(2) by simp
  have "0 \<le> x" if "x \<in> set (subtract_at a cs p)" for x
  proof -
    from that obtain i where i: "i < length a" "x = (if i \<in> set cs then a ! i - p else a ! i)"
      by (auto simp: subtract_at_def)
    moreover have "0 \<le> a ! i" using i(1) assms(1) by (simp add: non_negative_iff)
    moreover have "i \<in> set cs \<Longrightarrow> p \<le> a ! i" using ge by blast
    ultimately show ?thesis by (simp split: if_splits)
  qed
  then show ?thesis by (simp add: non_negative_iff)
qed

text \<open>
  Claim C3 (non-negativity): if no stock count is negative on entry, none is negative
  in what a call of \<open>allocate_recipes\<close> returns, nor in the array after any single order
  that the loop completes; and in a run of \<open>fulfil_orders\<close> the pool holds no negative
  count after any number \<open>m\<close> of visited cells nor at the end of the run, whether it
  returns true or false or raises, and neither does any array handed to
  \<open>allocate_recipes\<close>. This holds for every order table, so in particular for those with
  non-negative portion sizes, recipes-per-box counts and order counts.
\<close>

theorem non_negativity:
  "(non_negative stock_levels \<and>
      allocate_recipes ap N_orders stock_levels N_portions N_recipes = Inr (stocks_left, orders_left)
      \<longrightarrow> non_negative stocks_left) \<and>
   (non_negative stock_levels \<and>
      recipe_choices ap stock_levels N_recipes = Inr choices \<and>
      \<not> Min (set (take_at stock_levels choices)) < N_portions
      \<longrightarrow> non_negative (subtract_at stock_levels choices N_portions)) \<and>
   (list_all (\<lambda>row. 0 \<le> stock_count row) StockDF \<longrightarrow>
      run_non_negative (state_of (run_cells (cell_body ap StockDF OrdersDF Ordersdict)
                         (take m (visit_order OrdersDF)) (initial_state StockDF))) \<and>
      run_non_negative (snd (fulfil_orders ap StockDF OrdersDF Ordersdict)))"
proof (intro conjI impI)
  assume "non_negative stock_levels \<and>
      allocate_recipes ap N_orders stock_levels N_portions N_recipes = Inr (stocks_left, orders_left)"
  then show "non_negative stocks_left" using allocate_recipes_nonneg by blast
next
  assume "non_negative stock_levels \<and>
      recipe_choices ap stock_levels N_recipes = Inr choices \<and>
      \<not> Min (set (take_at stock_levels choices)) < N_portions"
  then show "non_negative (subtract_at stock_levels choices N_portions)"
    using subtract_at_non_negative by blast
next
  assume a: "list_all (\<lambda>row. 0 \<le> stock_count row) StockDF"
  then have init: "run_non_negative (initial_state StockDF)"
    by (simp add: run_non_negative_def initial_state_def non_negative_def calls_non_negative_def list_all_iff)
  show "run_non_negative (state_of (run_cells (cell_body ap StockDF OrdersDF Ordersdict)
                         (take m (visit_order OrdersDF)) (initial_state StockDF)))"
    unfolding cell_body_def by (rule run_cells_non_negative[OF init])
  show "run_non_negative (snd (fulfil_orders ap StockDF OrdersDF Ordersdict))"
    unfolding fulfil_orders_def snd_finish cell_body_def by (rule run_cells_non_negative[OF init])
qed

theorem non_negativity_witness:
  "non_negative [5, 3] \<and>
   allocate_recipes argsort 2 [5, 3] 2 2 = Inr ([3, 1], 1) \<and>
   non_negative [3, 1] \<and>
   recipe_choices argsort [5, 3] 2 = Inr [1, 0] \<and>
   \<not> Min (set (take_at [5, 3] [1, 0])) < (2 :: int) \<and>
   non_negative (subtract_at [5, 3] [1, 0] 2) \<and>
   list_all (\<lambda>row. 0 \<le> stock_count row) scarce_stock \<and>
   fst (fulfil_orders argsort scarce_stock scarce_orders scarce_dict) = Returned False \<and>
   stocks (snd (fulfil_orders argsort scarce_stock scarce_orders scarce_dict)) = [1, 1] \<and>
   run_non_negative (state_of (run_cells (cell_body argsort scarce_stock scarce_orders scarce_dict)
                      (take 1 (visit_order scarce_orders)) (initial_state scarce_stock))) \<and>
   run_non_negative (snd (fulfil_orders argsort scarce_stock scarce_orders scarce_dict))"
proof -
  have 1: "non_negative [5, 3]" by (simp add: non_negative_def)
  have 2: "allocate_recipes argsort 2 [5, 3] 2 2 = Inr ([3, 1], 1)" by code_simp
  have 3: "list_all (\<lambda>row. 0 \<le> stock_count row) scarce_stock" by (simp add: scarce_stock_def)
  have 4: "fst (fulfil_orders argsort scarce_stock scarce_orders scarce_dict) = Returned False"
    by code_simp
  have 5: "stocks (snd (fulfil_orders argsort scarce_stock scarce_orders scarce_dict)) = [1, 1]"
    by code_simp
  have 9: "recipe_choices argsort [5, 3] 2 = Inr [1, 0]" by code_simp
  have 10: "\<not> Min (set (take_at [5, 3] [1, 0])) < (2 :: int)" by (simp add: take_at_def)
  note nn = non_negativity[of "[5, 3]" argsort 2 2 2 "[3, 1]" 1 "[1, 0]" scarce_stock scarce_orders
      scarce_dict 1]
  have 11: "non_negative (subtract_at [5, 3] [1, 0] 2)" using nn 1 9 10 by blast
  have 6: "non_negative [3, 1]" using nn 1 2 by blast
  have 7: "run_non_negative (state_of (run_cells (cell_body argsort scarce_stock scarce_orders scarce_dict)
                      (take 1 (visit_order scarce_orders)) (initial_state scarce_stock)))"
    using nn 3 by blast
  have 8: "run_non_negative (snd (fulfil_orders argsort scarce_stock scarce_orders scarce_dict))"
    using nn 3 by blast
  show ?thesis by (intro conjI 1 2 3 4 5 6 7 8 9 10 11)
qed

section \<open>The cascade\<close>

lemma run_cells_append:
  "run_cells body (xs @ ys) st =
     (case run_cells body xs st of Continue st' \<Rightarrow> run_cells body ys st' | Stop out st' \<Rightarrow> Stop out st')"
  by (induction xs arbitrary: st) (auto split: step.splits)

text \<open>
  Claim C6 (cascade short-circuit): if the cell \<open>[i, j, k]\<close> is a vegetarian cell that the
  run reaches and its allocation returns an unmet count above 0, then \<open>fulfil_orders\<close>
  returns false, the pool is as it was before the cell, and the call for this cell on
  the vegetarian subset is the last call of the run: no later cell is allocated and the
  combined pool is not tried.
\<close>

theorem cascade_short_circuit:
  assumes "visit_order OrdersDF = before @ (j, i, k) # later"
    and "run_cells (cell_body ap StockDF OrdersDF Ordersdict) before (initial_state StockDF) = Continue st"
    and "lookup (axis0 Ordersdict) i = Some ''vegetarian''"
    and "lookup (axis1 Ordersdict) j = Some r"
    and "lookup (axis2 Ordersdict) k = Some p"
    and "allocate_recipes ap (item OrdersDF i j k) (mask_get (stocks st) (veg_mask StockDF)) p r
           = Inr (stocks_left, u)"
    and "0 < u"
  shows "fulfil_orders ap StockDF OrdersDF Ordersdict =
     (Returned False,
      record_call st VegetarianOnly (item OrdersDF i j k)
        (mask_get (stocks st) (veg_mask StockDF)) p r)"
proof -
  have cell: "cell_body ap StockDF OrdersDF Ordersdict (j, i, k) st =
      Stop (Returned False)
        (record_call st VegetarianOnly (item OrdersDF i j k)
           (mask_get (stocks st) (veg_mask StockDF)) p r)"
    using assms(3-7) by (simp add: cell_body_def visit_cell_def Let_def)
  show ?thesis
    unfolding fulfil_orders_def assms(1) run_cells_append assms(2)
    by (simp add: cell)
qed

theorem cascade_short_circuit_witness:
  "visit_order short_orders = [(0, 0, 0)] @ (0, 0, 1) # [(0, 1, 0), (0, 1, 1)] \<and>
   run_cells (cell_body argsort short_stock short_orders short_dict) [(0, 0, 0)]
     (initial_state short_stock) = Continue short_state \<and>
   lookup (axis0 short_dict) 0 = Some ''vegetarian'' \<and>
   lookup (axis1 short_dict) 0 = Some 2 \<and>
   lookup (axis2 short_dict) 1 = Some 2 \<and>
   allocate_recipes argsort (item short_orders 0 0 1)
     (mask_get (stocks short_state) (veg_mask short_stock)) 2 2 = Inr ([0, 0], 1) \<and>
   fulfil_orders argsort short_stock short_orders short_dict =
     (Returned False,
      \<lparr>stocks = [2, 2, 9],
       calls = [\<lparr>call_pool = VegetarianOnly, call_orders = 1, call_stock = [6, 6],
                 call_portions = 4, call_recipes = 2\<rparr>,
                \<lparr>call_pool = VegetarianOnly, call_orders = 2, call_stock = [2, 2],
                 call_portions = 2, call_recipes = 2\<rparr>]\<rparr>)"
proof -
  have 1: "visit_order short_orders = [(0, 0, 0)] @ (0, 0, 1) # [(0, 1, 0), (0, 1, 1)]"
    by code_simp
  have 2: "run_cells (cell_body argsort short_stock short_orders short_dict) [(0, 0, 0)]
     (initial_state short_stock) = Continue short_state"
    by code_simp
  have 3: "lookup (axis0 short_dict) 0 = Some ''vegetarian''" by code_simp
  have 4: "lookup (axis1 short_dict) 0 = Some 2" by code_simp
  have 5: "lookup (axis2 short_dict) 1 = Some 2" by code_simp
  have 6: "allocate_recipes argsort (item short_orders 0 0 1)
     (mask_get (stocks short_state) (veg_mask short_stock)) 2 2 = Inr ([0, 0], 1)"
    by code_simp
  have 7: "(0::int) < 1" by simp
  have 8: "record_call short_state VegetarianOnly (item short_orders 0 0 1)
        (mask_get (stocks short_state) (veg_mask short_stock)) 2 2 =
      \<lparr>stocks = [2, 2, 9],
       calls = [\<lparr>call_pool = VegetarianOnly, call_orders = 1, call_stock = [6, 6],
                 call_portions = 4, call_recipes = 2\<rparr>,
                \<lparr>call_pool = VegetarianOnly, call_orders = 2, call_stock = [2, 2],
                 call_portions = 2, call_recipes = 2\<rparr>]\<rparr>"
    by code_simp
  have 9: "fulfil_orders argsort short_stock short_orders short_dict =
     (Returned False,
      \<lparr>stocks = [2, 2, 9],
       calls = [\<lparr>call_pool = VegetarianOnly, call_orders = 1, call_stock = [6, 6],
                 call_portions = 4, call_recipes = 2\<rparr>,
                \<lparr>call_pool = VegetarianOnly, call_orders = 2, call_stock = [2, 2],
                 call_portions = 2, call_recipes = 2\<rparr>]\<rparr>)"
    using cascade_short_circuit[OF 1 2 3 4 5 6 7] unfolding 8 .
  show ?thesis by (intro conjI 1 2 3 4 5 6 9)
qed

text \<open>
  Claim C1 (gourmet fallback): if the cell \<open>[i, j, k]\<close> is a gourmet cell that the run
  reaches, its order count is first allocated on the gourmet-only subset; if that call
  returns an unmet count \<open>u > 0\<close>, the next call allocates exactly \<open>u\<close> orders on the whole
  pool with the same portion size and recipes-per-box count; if that call returns an
  unmet count above 0 the run returns false at once, and otherwise the pool it returned
  replaces the whole pool and the later cells are run from it.
\<close>

theorem gourmet_fallback:
  assumes "visit_order OrdersDF = before @ (j, i, k) # later"
    and "run_cells (cell_body ap StockDF OrdersDF Ordersdict) before (initial_state StockDF) = Continue st"
    and "lookup (axis0 Ordersdict) i = Some ''gourmet''"
    and "lookup (axis1 Ordersdict) j = Some r"
    and "lookup (axis2 Ordersdict) k = Some p"
    and "allocate_recipes ap (item OrdersDF i j k) (mask_get (stocks st) (gourmet_mask StockDF)) p r
           = Inr (stocks_left, u)"
    and "0 < u"
    and "allocate_recipes ap u (stocks st) p r = Inr (pool', u')"
  shows "fulfil_orders ap StockDF OrdersDF Ordersdict =
     (let st1 = record_call st GourmetOnly (item OrdersDF i j k)
                  (mask_get (stocks st) (gourmet_mask StockDF)) p r;
          st2 = record_call st1 Combined u (stocks st) p r
      in if 0 < u' then (Returned False, st2\<lparr>stocks := pool'\<rparr>)
         else finish (run_cells (cell_body ap StockDF OrdersDF Ordersdict) later
                        (st2\<lparr>stocks := pool'\<rparr>)))"
proof -
  have cell: "cell_body ap StockDF OrdersDF Ordersdict (j, i, k) st =
      (let st1 = record_call st GourmetOnly (item OrdersDF i j k)
                  (mask_get (stocks st) (gourmet_mask StockDF)) p r;
           st2 = record_call st1 Combined u (stocks st) p r
       in if 0 < u' then Stop (Returned False) (st2\<lparr>stocks := pool'\<rparr>)
          else Continue (st2\<lparr>stocks := pool'\<rparr>))"
    using assms(3-8) by (simp add: cell_body_def visit_cell_def Let_def)
  show ?thesis
    unfolding fulfil_orders_def assms(1) run_cells_append assms(2)
    by (simp add: cell Let_def)
qed

theorem gourmet_fallback_witness:
  "visit_order example_orders = [(0, 0, 0), (0, 0, 1)] @ (0, 1, 0) # [(0, 1, 1)] \<and>
   run_cells (cell_body argsort example_stock example_orders example_dict)
     [(0, 0, 0), (0, 0, 1)] (initial_state example_stock) = Continue example_state \<and>
   lookup (axis0 example_dict) 1 = Some ''gourmet'' \<and>
   lookup (axis1 example_dict) 0 = Some 1 \<and>
   lookup (axis2 example_dict) 0 = Some 2 \<and>
   allocate_recipes argsort (item example_orders 1 0 0)
     (mask_get (stocks example_state) (gourmet_mask example_stock)) 2 1 = Inr ([1], 1) \<and>
   allocate_recipes argsort 1 (stocks example_state) 2 1 = Inr ([5, 5, 3], 0) \<and>
   stocks (snd (fulfil_orders argsort example_stock example_orders example_dict)) = [5, 5, 2] \<and>
   fst (fulfil_orders argsort example_stock example_orders example_dict) = Returned True"
proof -
  have 1: "visit_order example_orders = [(0, 0, 0), (0, 0, 1)] @ (0, 1, 0) # [(0, 1, 1)]"
    by code_simp
  have 2: "run_cells (cell_body argsort example_stock example_orders example_dict)
     [(0, 0, 0), (0, 0, 1)] (initial_state example_stock) = Continue example_state"
    by code_simp
  have 3: "lookup (axis0 example_dict) 1 = Some ''gourmet''" by code_simp
  have 4: "lookup (axis1 example_dict) 0 = Some 1" by code_simp
  have 5: "lookup (axis2 example_dict) 0 = Some 2" by code_simp
  have 6: "allocate_recipes argsort (item example_orders 1 0 0)
     (mask_get (stocks example_state) (gourmet_mask example_stock)) 2 1 = Inr ([1], 1)"
    by code_simp
  have 7: "(0::int) < 1" by simp
  have 8: "allocate_recipes argsort 1 (stocks example_state) 2 1 = Inr ([5, 5, 3], 0)"
    by code_simp
  have 9: "run_cells (cell_body argsort example_stock example_orders example_dict) [(0, 1, 1)]
     ((record_call (record_call example_state GourmetOnly (item example_orders 1 0 0)
          (mask_get (stocks example_state) (gourmet_mask example_stock)) 2 1)
        Combined 1 (stocks example_state) 2 1)\<lparr>stocks := [5, 5, 3]\<rparr>)
     = Continue \<lparr>stocks = [5, 5, 2], calls = calls example_state @
        [\<lparr>call_pool = GourmetOnly, call_orders = 3, call_stock = [5],
           call_portions = 2, call_recipes = 1\<rparr>,
         \<lparr>call_pool = Combined, call_orders = 1, call_stock = [5, 5, 5],
           call_portions = 2, call_recipes = 1\<rparr>,
         \<lparr>call_pool = GourmetOnly, call_orders = 1, call_stock = [3],
           call_portions = 1, call_recipes = 1\<rparr>]\<rparr>"
    by code_simp
  have run: "fulfil_orders argsort example_stock example_orders example_dict =
     finish (run_cells (cell_body argsort example_stock example_orders example_dict) [(0, 1, 1)]
       ((record_call (record_call example_state GourmetOnly (item example_orders 1 0 0)
          (mask_get (stocks example_state) (gourmet_mask example_stock)) 2 1)
        Combined 1 (stocks example_state) 2 1)\<lparr>stocks := [5, 5, 3]\<rparr>))"
    using gourmet_fallback[OF 1 2 3 4 5 6 7 8] by (simp only: Let_def less_irrefl if_False)
  have 10: "stocks (snd (fulfil_orders argsort example_stock example_orders example_dict)) = [5, 5, 2]"
    unfolding run 9 by simp
  have 11: "fst (fulfil_orders argsort example_stock example_orders example_dict) = Returned True"
    unfolding run 9 by simp
  show ?thesis
    by (intro conjI 1 2 3 4 5 6 8 10 11)
qed

text \<open>
  Claim C10 (the failed gourmet-only attempt is discarded): when the gourmet-only call
  of a gourmet cell returns an unmet count above 0, what the cell does next does not
  depend on the array that call returned: the fallback call is given the pool as it was
  before the attempt, and the pool after the cell is the one the fallback call returned.
\<close>

theorem failed_attempt_discarded:
  assumes "lookup (axis0 Ordersdict) i = Some ''gourmet''"
    and "lookup (axis1 Ordersdict) j = Some r"
    and "lookup (axis2 Ordersdict) k = Some p"
    and "allocate_recipes ap (item OrdersDF i j k) (mask_get (stocks st) gourmet_stocks) p r
           = Inr (stocks_left, u)"
    and "0 < u"
  shows "visit_cell ap veg_stocks gourmet_stocks OrdersDF Ordersdict (j, i, k) st =
     (let st2 = record_call
                  (record_call st GourmetOnly (item OrdersDF i j k)
                     (mask_get (stocks st) gourmet_stocks) p r)
                  Combined u (stocks st) p r
      in case allocate_recipes ap u (stocks st) p r of
           Inl e \<Rightarrow> Stop (Raised e) st2
         | Inr (pool', u') \<Rightarrow>
             if 0 < u' then Stop (Returned False) (st2\<lparr>stocks := pool'\<rparr>)
             else Continue (st2\<lparr>stocks := pool'\<rparr>))"
  using assms by (simp add: visit_cell_def Let_def split: sum.splits prod.splits)

theorem failed_attempt_discarded_witness:
  "lookup (axis0 example_dict) 1 = Some ''gourmet'' \<and>
   lookup (axis1 example_dict) 0 = Some 1 \<and>
   lookup (axis2 example_dict) 0 = Some 2 \<and>
   allocate_recipes argsort (item example_orders 1 0 0)
     (mask_get (stocks example_state) [False, False, True]) 2 1 = Inr ([1], 1) \<and>
   state_of (visit_cell argsort [True, True, False] [False, False, True] example_orders example_dict
       (0, 1, 0) example_state) =
     \<lparr>stocks = [5, 5, 3],
      calls = calls example_state @
        [\<lparr>call_pool = GourmetOnly, call_orders = 3, call_stock = [5],
           call_portions = 2, call_recipes = 1\<rparr>,
         \<lparr>call_pool = Combined, call_orders = 1, call_stock = [5, 5, 5],
           call_portions = 2, call_recipes = 1\<rparr>]\<rparr>"
proof -
  have 1: "lookup (axis0 example_dict) 1 = Some ''gourmet''" by code_simp
  have 2: "lookup (axis1 example_dict) 0 = Some 1" by code_simp
  have 3: "lookup (axis2 example_dict) 0 = Some 2" by code_simp
  have 4: "allocate_recipes argsort (item example_orders 1 0 0)
     (mask_get (stocks example_state) [False, False, True]) 2 1 = Inr ([1], 1)"
    by code_simp
  have 5: "(0::int) < 1" by simp
  have 6: "allocate_recipes argsort 1 (stocks example_state) 2 1 = Inr ([5, 5, 3], 0)"
    by code_simp
  have 7: "state_of (visit_cell argsort [True, True, False] [False, False, True] example_orders example_dict
       (0, 1, 0) example_state) =
     \<lparr>stocks = [5, 5, 3],
      calls = calls example_state @
        [\<lparr>call_pool = GourmetOnly, call_orders = 3, call_stock = [5],
           call_portions = 2, call_recipes = 1\<rparr>,
         \<lparr>call_pool = Combined, call_orders = 1, call_stock = [5, 5, 5],
           call_portions = 2, call_recipes = 1\<rparr>]\<rparr>"
    unfolding failed_attempt_discarded[OF 1 2 3 4 5] 6
    by (simp add: Let_def record_call_def example_state_def example_orders_def)
  show ?thesis by (intro conjI 1 2 3 4 7)
qed

section \<open>The order of the cells\<close>

text \<open>
  Claim C2 says that the portion-size axis is the outermost loop. On an orders file in
  the shape of the data contract the loader makes the recipes-per-box labels the frame
  index, which is axis 1 of \<open>OrdersDF\<close> and the outermost loop of \<open>fulfil_orders\<close>, and the
  portion-size labels the columns, axis 2 and the innermost loop. In the run below the
  cell with portion size 2 and 3 recipes per box is allocated before the cell with
  portion size 4 and 2 recipes per box.
\<close>

theorem recipes_axis_outermost:
  "default_orders_satisfied argsort contract_orders contract_stock =
     Loaded (Returned True,
       \<lparr>stocks = [12, 10, 8, 20],
        calls =
          [\<lparr>call_pool = VegetarianOnly, call_orders = 1, call_stock = [20, 20, 20],
             call_portions = 4, call_recipes = 3\<rparr>,
           \<lparr>call_pool = VegetarianOnly, call_orders = 1, call_stock = [16, 16, 16],
             call_portions = 2, call_recipes = 3\<rparr>,
           \<lparr>call_pool = GourmetOnly, call_orders = 0, call_stock = [20],
             call_portions = 4, call_recipes = 3\<rparr>,
           \<lparr>call_pool = GourmetOnly, call_orders = 0, call_stock = [20],
             call_portions = 2, call_recipes = 3\<rparr>,
           \<lparr>call_pool = VegetarianOnly, call_orders = 1, call_stock = [14, 14, 14],
             call_portions = 4, call_recipes = 2\<rparr>,
           \<lparr>call_pool = VegetarianOnly, call_orders = 1, call_stock = [14, 10, 10],
             call_portions = 2, call_recipes = 2\<rparr>,
           \<lparr>call_pool = GourmetOnly, call_orders = 0, call_stock = [20],
             call_portions = 4, call_recipes = 2\<rparr>,
           \<lparr>call_pool = GourmetOnly, call_orders = 0, call_stock = [20],
             call_portions = 2, call_recipes = 2\<rparr>]\<rparr>)"
  by code_simp

section \<open>Label normalisation\<close>

text \<open>
  What \<open>obtain_numbers\<close> computes: the segment before the first underscore decides, and the
  segment of a string with no underscore is the whole string. So every string of the
  form \<open>word_unit\<close> whose word is \<open>two\<close>, \<open>three\<close> or \<open>four\<close> becomes 2, 3 or 4, every input
  that is not a string is returned unchanged, and so is every string whose first
  segment is not in the vocabulary.
\<close>

lemma obtain_numbers_first_segment:
  "obtain_numbers (PyStr string) =
     (if split_first string = ''two'' then PyInt 2
      else if split_first string = ''three'' then PyInt 3
      else if split_first string = ''four'' then PyInt 4
      else PyStr string) \<and>
   obtain_numbers (PyInt n) = PyInt n \<and>
   obtain_numbers PyNone = PyNone \<and>
   (CHR ''_'' \<notin> set word \<longrightarrow>
      split_first (word @ CHR ''_'' # unit) = word \<and> split_first word = word)"
  by (auto simp: numberdict_def split_first_def Let_def takeWhile_append)

text \<open>
  Claim C9 says that every string that is not of the form \<open>word_unit\<close> with a word of the
  vocabulary is returned unchanged, as the function's own comment does (lines 11-15:
  the input has the form \<open>num_XXXX\<close>, and a string that is incorrectly formatted is
  returned). The bare word \<open>two\<close> has no underscore and is not of that form, and the code
  converts it: line 25 takes the whole string as the segment and line 26 finds it in
  the dictionary.
\<close>

theorem bare_word_is_converted:
  "obtain_numbers (PyStr ''two'') = PyInt 2"
  by code_simp

end
